theory Spec2Isabelle
  imports Main "HOL-Library.List_Lexorder" "HOL-Library.Product_Lexorder"
begin

section \<open>running\_stats: per-category accounting with a text report\<close>

text \<open>
  A shallow embedding of \<^verbatim>\<open>location_data/running_stats.py\<close>: the classes
  \<^verbatim>\<open>StatsCount\<close>, \<^verbatim>\<open>Stats\<close> and \<^verbatim>\<open>StatsWithSum\<close>.

  Modelling decisions.
  \<^item> A text string is the list of its Unicode code points (\<open>ustr\<close>), which is what
    \<^verbatim>\<open>len\<close>, slicing, comparison and \<^verbatim>\<open>encode('ascii', 'ignore')\<close> work on. Categories
    are text strings. The ASCII bytes that \<^verbatim>\<open>encode\<close> returns are written as a \<open>ustr\<close>
    of code points below 128. Byte strings as arguments are not represented.
  \<^item> A recorded value is a \<open>pyval\<close>: an unbounded integer, a text string or
    \<^verbatim>\<open>None\<close>. Floating-point numbers are not represented.
  \<^item> The store is a dictionary from category to a \<^emph>\<open>reference\<close> to a list object; the
    list objects live in an explicit heap, so that sharing between accumulators is
    visible. The dictionary is an association list in iteration order (a new key goes
    to the end, an existing key keeps its place), as dictionaries that keep insertion
    order iterate. A store is constructed without initial content.
  \<^item> Errors are values: \<open>KeyError\<close> for a missing key, \<open>TypeError\<close> for an unsupported
    addition.
  \<^item> Code of the Python runtime that the module calls but does not contain is a
    parameter: \<open>repr_str\<close> (the \<^verbatim>\<open>repr\<close> of a text string) and \<open>td_str\<close> (the
    \<^verbatim>\<open>str\<close> of a \<^verbatim>\<open>timedelta\<close>, here a number of microseconds). The clock reading
    \<^verbatim>\<open>datetime.datetime.now()\<close> is the parameter \<open>now\<close>.
\<close>

subsection \<open>Strings and values\<close>

type_synonym ustr = "nat list"

definition lit :: "string \<Rightarrow> ustr" where
  "lit cs = map of_char cs"

text \<open>Decimal rendering of an integer, as \<^verbatim>\<open>'%i' % n\<close> and \<^verbatim>\<open>str(n)\<close> give it.\<close>

fun digits :: "nat \<Rightarrow> ustr" where
  "digits n = (if n < 10 then [48 + n] else digits (n div 10) @ [48 + n mod 10])"

declare digits.simps [simp del]

definition str_int :: "int \<Rightarrow> ustr" where
  "str_int i = (if i < 0 then 45 # digits (nat (- i)) else digits (nat i))"

datatype pyval = PyInt int | PyStr ustr | PyNone

datatype error = KeyError | TypeError

text \<open>\<^verbatim>\<open>'%s' % v\<close>, that is \<^verbatim>\<open>str(v)\<close>.\<close>

fun py_str :: "pyval \<Rightarrow> ustr" where
  "py_str (PyInt i) = str_int i"
| "py_str (PyStr s) = s"
| "py_str PyNone = lit ''None''"

text \<open>\<^verbatim>\<open>'%r' % v\<close>, that is \<^verbatim>\<open>repr(v)\<close>.\<close>

fun py_repr :: "(ustr \<Rightarrow> ustr) \<Rightarrow> pyval \<Rightarrow> ustr" where
  "py_repr repr_str (PyInt i) = str_int i"
| "py_repr repr_str (PyStr s) = repr_str s"
| "py_repr repr_str PyNone = lit ''None''"

text \<open>\<^verbatim>\<open>sep.join(parts)\<close>.\<close>

fun join :: "ustr \<Rightarrow> ustr list \<Rightarrow> ustr" where
  "join sep [] = []"
| "join sep [p] = p"
| "join sep (p # q # ps) = p @ sep @ join sep (q # ps)"

text \<open>The \<^verbatim>\<open>repr\<close> of a list and of a 2-tuple, given the \<^verbatim>\<open>repr\<close> of the elements.\<close>

definition repr_list :: "('a \<Rightarrow> ustr) \<Rightarrow> 'a list \<Rightarrow> ustr" where
  "repr_list r xs = lit ''['' @ join (lit '', '') (map r xs) @ lit '']''"

definition repr_pair :: "('a \<Rightarrow> ustr) \<Rightarrow> ('b \<Rightarrow> ustr) \<Rightarrow> 'a \<times> 'b \<Rightarrow> ustr" where
  "repr_pair ra rb p = lit ''('' @ ra (fst p) @ lit '', '' @ rb (snd p) @ lit '')''"

text \<open>\<^verbatim>\<open>s.encode('ascii', 'ignore')\<close>: code points that ASCII cannot encode are left out.\<close>

definition encode_ascii_ignore :: "ustr \<Rightarrow> ustr" where
  "encode_ascii_ignore s = filter (\<lambda>k. k < 128) s"

text \<open>\<^verbatim>\<open>a + b\<close> on the values of the model.\<close>

fun py_add :: "pyval \<Rightarrow> pyval \<Rightarrow> error + pyval" where
  "py_add (PyInt a) (PyInt b) = Inr (PyInt (a + b))"
| "py_add (PyStr a) (PyStr b) = Inr (PyStr (a @ b))"
| "py_add _ _ = Inl TypeError"

text \<open>\<^verbatim>\<open>sum(xs)\<close> adds from the left, starting from the integer \<^verbatim>\<open>0\<close>.\<close>

fun py_sum_from :: "pyval \<Rightarrow> pyval list \<Rightarrow> error + pyval" where
  "py_sum_from acc [] = Inr acc"
| "py_sum_from acc (x # xs) =
     (case py_add acc x of Inl e \<Rightarrow> Inl e | Inr acc' \<Rightarrow> py_sum_from acc' xs)"

definition py_sum :: "pyval list \<Rightarrow> error + pyval" where
  "py_sum xs = py_sum_from (PyInt 0) xs"

subsection \<open>Dictionaries\<close>

text \<open>\<^verbatim>\<open>d[k] = v\<close>: an existing key keeps its position, a new key is appended.\<close>

fun dict_set :: "('k \<times> 'a) list \<Rightarrow> 'k \<Rightarrow> 'a \<Rightarrow> ('k \<times> 'a) list" where
  "dict_set [] k v = [(k, v)]"
| "dict_set (p # ps) k v = (if fst p = k then (k, v) # ps else p # dict_set ps k v)"

text \<open>\<^verbatim>\<open>d[k]\<close>.\<close>

definition dict_get :: "('k \<times> 'a) list \<Rightarrow> 'k \<Rightarrow> error + 'a" where
  "dict_get d k = (case map_of d k of None \<Rightarrow> Inl KeyError | Some v \<Rightarrow> Inr v)"

subsection \<open>The store\<close>

type_synonym addr = nat

record 'v stats =
  start_time :: int
  entries :: "(ustr \<times> addr) list"
  heap :: "addr \<Rightarrow> 'v list"
  next_free :: addr

text \<open>The class attribute \<^verbatim>\<open>_init_value = []\<close> is one list object, at a fixed address.\<close>

definition init_value_addr :: addr where
  "init_value_addr = 0"

definition report_value_limit :: nat where
  "report_value_limit = 150"

text \<open>\<^verbatim>\<open>Stats()\<close>, constructed at clock reading \<open>t0\<close> with no initial content.\<close>

definition new_stats :: "int \<Rightarrow> 'v stats" where
  "new_stats t0 = \<lparr>start_time = t0, entries = [], heap = (\<lambda>a. []), next_free = 1\<rparr>"

text \<open>\<^verbatim>\<open>copy.deepcopy(self._init_value)\<close> allocates a new list object.\<close>

definition init_category :: "'v stats \<Rightarrow> ustr \<Rightarrow> 'v stats" where
  "init_category s category =
     (if map_of (entries s) category = None
      then s\<lparr>entries := dict_set (entries s) category (next_free s),
              heap := (heap s)(next_free s := heap s init_value_addr),
              next_free := Suc (next_free s)\<rparr>
      else s)"

text \<open>\<^verbatim>\<open>self[category].append(x)\<close>.\<close>

definition append_to :: "'v stats \<Rightarrow> ustr \<Rightarrow> 'v \<Rightarrow> error + 'v stats" where
  "append_to s category x =
     (case dict_get (entries s) category of
        Inl e \<Rightarrow> Inl e
      | Inr a \<Rightarrow> Inr (s\<lparr>heap := (heap s)(a := heap s a @ [x])\<rparr>))"

text \<open>The truncation both \<^verbatim>\<open>report_value\<close> methods end with.\<close>

definition limit_value_str :: "ustr \<Rightarrow> ustr" where
  "limit_value_str value_str =
     (if length value_str > report_value_limit
      then take report_value_limit value_str @ lit ''...''
      else value_str)"

subsection \<open>Stats\<close>

definition Stats_add :: "pyval stats \<Rightarrow> ustr \<Rightarrow> pyval \<Rightarrow> error + (pyval stats \<times> ustr)" where
  "Stats_add s category val =
     (case append_to (init_category s category) category val of
        Inl e \<Rightarrow> Inl e
      | Inr s' \<Rightarrow> Inr (s', encode_ascii_ignore (category @ lit '': '' @ py_str val)))"

definition Stats_value_str :: "(ustr \<Rightarrow> ustr) \<Rightarrow> pyval list \<Rightarrow> ustr" where
  "Stats_value_str repr_str vals =
     str_int (int (length vals)) @ lit '' '' @ repr_list (py_repr repr_str) vals"

definition Stats_report_value ::
  "(ustr \<Rightarrow> ustr) \<Rightarrow> pyval stats \<Rightarrow> ustr \<Rightarrow> error + (ustr \<times> nat)" where
  "Stats_report_value repr_str s category =
     (case dict_get (entries s) category of
        Inl e \<Rightarrow> Inl e
      | Inr a \<Rightarrow>
          (let vals = heap s a;
               number_of_values = length vals
           in Inr (limit_value_str (Stats_value_str repr_str vals), number_of_values)))"

subsection \<open>StatsWithSum\<close>

definition StatsWithSum_add ::
  "(pyval \<times> pyval) stats \<Rightarrow> ustr \<Rightarrow> pyval \<Rightarrow> pyval
     \<Rightarrow> error + ((pyval \<times> pyval) stats \<times> ustr)" where
  "StatsWithSum_add s category ident float_to_sum =
     (case append_to (init_category s category) category (ident, float_to_sum) of
        Inl e \<Rightarrow> Inl e
      | Inr s' \<Rightarrow>
          Inr (s', encode_ascii_ignore
                     (category @ lit '': '' @ py_str ident @ lit '' '' @ py_str float_to_sum)))"

definition StatsWithSum_value_str ::
  "(ustr \<Rightarrow> ustr) \<Rightarrow> pyval \<Rightarrow> (pyval \<times> pyval) list \<Rightarrow> ustr" where
  "StatsWithSum_value_str repr_str sum_of_nums vals =
     str_int (int (length vals)) @ lit '' total='' @ py_str sum_of_nums @ lit '' ''
       @ repr_list (repr_pair (py_repr repr_str) (py_repr repr_str)) vals"

definition StatsWithSum_report_value ::
  "(ustr \<Rightarrow> ustr) \<Rightarrow> (pyval \<times> pyval) stats \<Rightarrow> ustr \<Rightarrow> error + (ustr \<times> nat)" where
  "StatsWithSum_report_value repr_str s category =
     (case dict_get (entries s) category of
        Inl e \<Rightarrow> Inl e
      | Inr a \<Rightarrow>
          (let vals = heap s a;
               number_of_values = length vals
           in case py_sum (map snd vals) of
                Inl e \<Rightarrow> Inl e
              | Inr sum_of_nums \<Rightarrow>
                  Inr (limit_value_str (StatsWithSum_value_str repr_str sum_of_nums vals),
                       number_of_values)))"

subsection \<open>StatsCount.report\<close>

text \<open>
  The method \<^verbatim>\<open>report_value\<close> is found by dynamic dispatch, so \<open>report\<close> takes it as
  the argument \<open>rv\<close>. The first loop fills \<^verbatim>\<open>report_dict\<close>, and stops at the first
  category whose \<^verbatim>\<open>report_value\<close> raises.
\<close>

fun fill_report_dict ::
  "(ustr \<Rightarrow> error + (ustr \<times> nat)) \<Rightarrow> ustr list \<Rightarrow> (ustr \<times> ustr \<times> nat) list
     \<Rightarrow> error + (ustr \<times> ustr \<times> nat) list" where
  "fill_report_dict rv [] report_dict = Inr report_dict"
| "fill_report_dict rv (category # cs) report_dict =
     (case rv category of
        Inl e \<Rightarrow> Inl e
      | Inr t \<Rightarrow> fill_report_dict rv cs (dict_set report_dict category t))"

text \<open>
  \<^verbatim>\<open>sorted\<close> is a stable sort: by the items themselves (tuples compare
  lexicographically, strings by code point) or by the key \<^verbatim>\<open>-x[1][1]\<close>.
\<close>

definition report_items ::
  "('v stats \<Rightarrow> ustr \<Rightarrow> error + (ustr \<times> nat)) \<Rightarrow> bool \<Rightarrow> 'v stats
     \<Rightarrow> error + (ustr \<times> ustr \<times> nat) list" where
  "report_items rv order_by_title s =
     (case fill_report_dict (rv s) (map fst (entries s)) [] of
        Inl e \<Rightarrow> Inl e
      | Inr report_dict \<Rightarrow>
          Inr (if order_by_title then sort report_dict
               else sort_key (\<lambda>x. - int (snd (snd x))) report_dict))"

definition item_line :: "ustr \<Rightarrow> ustr \<times> ustr \<times> nat \<Rightarrow> ustr" where
  "item_line indent_str item = indent_str @ fst item @ lit '': '' @ fst (snd item)"

definition report_lines ::
  "('v stats \<Rightarrow> ustr \<Rightarrow> error + (ustr \<times> nat)) \<Rightarrow> (int \<Rightarrow> ustr) \<Rightarrow> int
     \<Rightarrow> int \<Rightarrow> bool \<Rightarrow> bool \<Rightarrow> 'v stats \<Rightarrow> error + ustr list" where
  "report_lines rv td_str now indent order_by_title show_time_taken s =
     (let indent_str = replicate (nat indent) 9 in
      case report_items rv order_by_title s of
        Inl e \<Rightarrow> Inl e
      | Inr items \<Rightarrow>
          (let lines = map (item_line indent_str) items;
               lines = (if entries s = [] then [indent_str @ lit ''None''] else lines);
               lines = (if show_time_taken
                        then lines @ [indent_str @ lit ''Time taken (h:m:s): ''
                                        @ td_str (now - start_time s)]
                        else lines)
           in Inr lines))"

definition report ::
  "('v stats \<Rightarrow> ustr \<Rightarrow> error + (ustr \<times> nat)) \<Rightarrow> (int \<Rightarrow> ustr) \<Rightarrow> int
     \<Rightarrow> int \<Rightarrow> bool \<Rightarrow> bool \<Rightarrow> 'v stats \<Rightarrow> error + ustr" where
  "report rv td_str now indent order_by_title show_time_taken s =
     (case report_lines rv td_str now indent order_by_title show_time_taken s of
        Inl e \<Rightarrow> Inl e
      | Inr lines \<Rightarrow> Inr (join [10] lines))"

subsection \<open>Sequences of calls\<close>

fun Stats_adds :: "pyval stats \<Rightarrow> (ustr \<times> pyval) list \<Rightarrow> error + pyval stats" where
  "Stats_adds s [] = Inr s"
| "Stats_adds s (call # calls) =
     (case Stats_add s (fst call) (snd call) of
        Inl e \<Rightarrow> Inl e
      | Inr r \<Rightarrow> Stats_adds (fst r) calls)"

fun StatsWithSum_adds ::
  "(pyval \<times> pyval) stats \<Rightarrow> (ustr \<times> pyval \<times> pyval) list
     \<Rightarrow> error + (pyval \<times> pyval) stats" where
  "StatsWithSum_adds s [] = Inr s"
| "StatsWithSum_adds s (call # calls) =
     (case StatsWithSum_add s (fst call) (fst (snd call)) (snd (snd call)) of
        Inl e \<Rightarrow> Inl e
      | Inr r \<Rightarrow> StatsWithSum_adds (fst r) calls)"

subsection \<open>Notions used to state the properties\<close>

text \<open>\<^verbatim>\<open>self.keys()\<close>, in iteration order.\<close>

definition keys :: "'v stats \<Rightarrow> ustr list" where
  "keys s = map fst (entries s)"

text \<open>The content of the list object a category refers to, if the category is present.\<close>

definition accumulator :: "'v stats \<Rightarrow> ustr \<Rightarrow> 'v list option" where
  "accumulator s category = map_option (heap s) (map_of (entries s) category)"

text \<open>
  A well-formed store: the keys of the dictionary are unique, no two categories refer to
  the same list object, none refers to the class attribute, every reference is to an
  allocated object, and the class attribute is still the empty list.
\<close>

definition wf_stats :: "'v stats \<Rightarrow> bool" where
  "wf_stats s \<longleftrightarrow>
     distinct (map fst (entries s)) \<and> distinct (map snd (entries s)) \<and>
     (\<forall>a \<in> set (map snd (entries s)). init_value_addr < a \<and> a < next_free s) \<and>
     init_value_addr < next_free s \<and> heap s init_value_addr = []"

text \<open>The calls of a sequence made with exactly the category \<open>c\<close>.\<close>

definition calls_with :: "ustr \<Rightarrow> (ustr \<times> 'a) list \<Rightarrow> (ustr \<times> 'a) list" where
  "calls_with c calls = filter (\<lambda>call. fst call = c) calls"

text \<open>The values that \<^verbatim>\<open>sum\<close> can add to its integer start value, and what they stand for.\<close>

fun is_number :: "pyval \<Rightarrow> bool" where
  "is_number (PyInt i) = True"
| "is_number _ = False"

fun number_of :: "pyval \<Rightarrow> int" where
  "number_of (PyInt i) = i"
| "number_of _ = 0"

text \<open>The calls of the module's own demonstration (its \<^verbatim>\<open>__main__\<close> block).\<close>

definition main_calls :: "(ustr \<times> pyval) list" where
  "main_calls =
     [(lit ''Success'', PyStr (lit ''good1'')), (lit ''Success'', PyStr (lit ''good2'')),
      (lit ''Success'', PyStr (lit ''good3'')), (lit ''Success'', PyStr (lit ''good4'')),
      (lit ''Failure'', PyStr (lit ''bad1''))]"


section \<open>Basic facts\<close>

subsection \<open>Strings\<close>

lemma length_lit [simp]: "length (lit cs) = length cs"
  by (simp add: lit_def)

text \<open>Unfolding \<open>digits\<close> on literals only, so that the simplifier terminates.\<close>

lemma digits_numeral:
  "digits (numeral k) =
     (if numeral k < (10::nat) then [48 + numeral k]
      else digits (numeral k div 10) @ [48 + numeral k mod 10])"
  by (rule digits.simps)

lemma digits_0: "digits 0 = [48]"
  by (simp add: digits.simps)

lemma digits_1: "digits 1 = [49]" "digits (Suc 0) = [49]"
  by (simp_all add: digits.simps)

lemmas digits_lits = digits_numeral digits_0 digits_1

lemma digits_small: "n < 10 \<Longrightarrow> digits n = [48 + n]"
  by (simp add: digits.simps)

subsection \<open>Dictionaries and the store\<close>

lemma map_of_dict_set: "map_of (dict_set d k v) = (map_of d)(k \<mapsto> v)"
  by (induction d) (auto simp: fun_eq_iff)

lemma dict_set_fresh: "k \<notin> fst ` set d \<Longrightarrow> dict_set d k v = d @ [(k, v)]"
  by (induction d) auto

lemma dict_get_Inr: "dict_get d k = Inr a \<longleftrightarrow> map_of d k = Some a"
  by (simp add: dict_get_def split: option.splits)

lemma dict_get_Inl: "dict_get d k = Inl e \<longleftrightarrow> map_of d k = None \<and> e = KeyError"
  by (auto simp: dict_get_def split: option.splits)

lemma wf_new_stats: "wf_stats (new_stats t0)"
  by (simp add: wf_stats_def new_stats_def init_value_addr_def)

lemma accumulator_new_stats: "accumulator (new_stats t0) c = None"
  by (simp add: accumulator_def new_stats_def)

lemma keys_new_stats: "keys (new_stats t0) = []"
  by (simp add: keys_def new_stats_def)

lemma map_of_None_iff_keys: "map_of (entries s) c = None \<longleftrightarrow> c \<notin> set (keys s)"
  by (simp add: keys_def map_of_eq_None_iff)

lemma accumulator_None_iff: "accumulator s c = None \<longleftrightarrow> c \<notin> set (keys s)"
  by (simp add: accumulator_def map_of_None_iff_keys)

text \<open>What \<open>_init_category\<close> followed by \<open>append\<close> does to a well-formed store.\<close>

lemma init_category_present:
  "c \<in> set (keys s) \<Longrightarrow> init_category s c = s"
  by (simp add: init_category_def map_of_None_iff_keys)

lemma init_category_absent:
  assumes "wf_stats s" "c \<notin> set (keys s)"
  shows "wf_stats (init_category s c)"
    and "keys (init_category s c) = keys s @ [c]"
    and "accumulator (init_category s c) = (accumulator s)(c \<mapsto> [])"
    and "start_time (init_category s c) = start_time s"
proof -
  let ?s = "init_category s c"
  from assms(2) have fresh: "c \<notin> fst ` set (entries s)" by (simp add: keys_def)
  have e: "entries ?s = entries s @ [(c, next_free s)]"
    using assms(2) fresh by (simp add: init_category_def map_of_None_iff_keys dict_set_fresh)
  have h: "heap ?s = (heap s)(next_free s := [])"
    using assms by (simp add: init_category_def map_of_None_iff_keys wf_stats_def)
  have n: "next_free ?s = Suc (next_free s)"
    using assms by (simp add: init_category_def map_of_None_iff_keys)
  show "keys ?s = keys s @ [c]" by (simp add: keys_def e)
  show "wf_stats ?s" using assms fresh unfolding wf_stats_def e h n
    by (auto simp: init_value_addr_def)
  show "start_time ?s = start_time s" by (simp add: init_category_def)
  show "accumulator ?s = (accumulator s)(c \<mapsto> [])"
  proof
    fix x
    have old: "map_of (entries s) x = Some a \<Longrightarrow> a \<noteq> next_free s" for a
      using assms(1) by (auto simp: wf_stats_def dest!: map_of_SomeD)
    have cn: "map_of (entries s) c = None"
      using assms(2) by (simp add: map_of_None_iff_keys)
    show "accumulator ?s x = ((accumulator s)(c \<mapsto> [])) x"
    proof (cases "x = c")
      case True
      then show ?thesis unfolding accumulator_def e h by (simp add: map_add_def cn)
    next
      case False
      then show ?thesis using old unfolding accumulator_def e h
        by (cases "map_of (entries s) x") (auto simp: map_add_def)
    qed
  qed
qed

lemma map_of_same_ref:
  assumes "distinct (map snd d)" "map_of d y = Some a" "map_of d c = Some a"
  shows "y = c"
proof -
  have "(y, a) \<in> set d" "(c, a) \<in> set d"
    using assms(2,3) by (auto dest: map_of_SomeD)
  moreover have "inj_on snd (set d)"
    using assms(1) by (simp add: distinct_map)
  ultimately have "(y, a) = (c, a)"
    by (intro inj_onD [of snd "set d"]) simp_all
  then show ?thesis by simp
qed

lemma append_to_present:
  assumes "wf_stats s" "c \<in> set (keys s)"
  shows "\<exists>s'. append_to s c x = Inr s' \<and> wf_stats s' \<and> keys s' = keys s \<and>
           entries s' = entries s \<and> start_time s' = start_time s \<and>
           accumulator s' = (accumulator s)(c \<mapsto> the (accumulator s c) @ [x])"
proof -
  from assms(2) obtain a where a: "map_of (entries s) c = Some a"
    using map_of_None_iff_keys [of s c] by (cases "map_of (entries s) c") auto
  let ?s = "s\<lparr>heap := (heap s)(a := heap s a @ [x])\<rparr>"
  have r: "append_to s c x = Inr ?s"
    by (simp add: append_to_def dict_get_def a)
  have ain: "a \<in> set (map snd (entries s))"
    using a by (force dest: map_of_SomeD)
  have inj: "map_of (entries s) y = Some a \<Longrightarrow> y = c" for y
    using assms(1) a by (auto simp: wf_stats_def dest: map_of_same_ref)
  have w: "wf_stats ?s"
    using assms(1) ain by (auto simp: wf_stats_def)
  have acc: "accumulator ?s = (accumulator s)(c \<mapsto> the (accumulator s c) @ [x])"
  proof
    fix y
    show "accumulator ?s y = ((accumulator s)(c \<mapsto> the (accumulator s c) @ [x])) y"
      using a inj [of y] by (cases "map_of (entries s) y") (auto simp: accumulator_def)
  qed
  show ?thesis using r w acc by (simp add: keys_def)
qed

lemma init_append_effect:
  assumes "wf_stats s"
  shows "\<exists>s'. append_to (init_category s c) c x = Inr s' \<and> wf_stats s' \<and>
           keys s' = (if c \<in> set (keys s) then keys s else keys s @ [c]) \<and>
           start_time s' = start_time s \<and>
           accumulator s' =
             (accumulator s)(c \<mapsto> (case accumulator s c of None \<Rightarrow> [] | Some l \<Rightarrow> l) @ [x])"
proof (cases "c \<in> set (keys s)")
  case True
  then obtain l where l: "accumulator s c = Some l"
    using accumulator_None_iff [of s c] by (cases "accumulator s c") auto
  show ?thesis
    using append_to_present [OF assms True, of x] True l
    by (auto simp: init_category_present)
next
  case False
  let ?s = "init_category s c"
  note i = init_category_absent [OF assms False]
  have p: "c \<in> set (keys ?s)" by (simp add: i(2))
  have n: "accumulator s c = None" using False by (simp add: accumulator_None_iff)
  show ?thesis
    using append_to_present [OF i(1) p, of x] False n
    by (auto simp: i(2,3,4))
qed

lemma Stats_add_effect:
  assumes "wf_stats s"
  shows "\<exists>s'. Stats_add s c v =
                Inr (s', encode_ascii_ignore (c @ lit '': '' @ py_str v)) \<and>
           wf_stats s' \<and>
           keys s' = (if c \<in> set (keys s) then keys s else keys s @ [c]) \<and>
           start_time s' = start_time s \<and>
           accumulator s' =
             (accumulator s)(c \<mapsto> (case accumulator s c of None \<Rightarrow> [] | Some l \<Rightarrow> l) @ [v])"
  using init_append_effect [OF assms, of c v] by (auto simp: Stats_add_def)

lemma StatsWithSum_add_effect:
  assumes "wf_stats s"
  shows "\<exists>s'. StatsWithSum_add s c i v =
                Inr (s', encode_ascii_ignore
                           (c @ lit '': '' @ py_str i @ lit '' '' @ py_str v)) \<and>
           wf_stats s' \<and>
           keys s' = (if c \<in> set (keys s) then keys s else keys s @ [c]) \<and>
           start_time s' = start_time s \<and>
           accumulator s' =
             (accumulator s)(c \<mapsto> (case accumulator s c of None \<Rightarrow> [] | Some l \<Rightarrow> l) @ [(i, v)])"
  using init_append_effect [OF assms, of c "(i, v)"] by (auto simp: StatsWithSum_add_def)

lemma Stats_adds_effect:
  assumes "wf_stats s"
  shows "\<exists>s'. Stats_adds s calls = Inr s' \<and> wf_stats s' \<and>
           start_time s' = start_time s \<and>
           set (keys s') = set (keys s) \<union> fst ` set calls \<and>
           (\<forall>c. accumulator s' c =
                  (if c \<in> set (keys s) \<union> fst ` set calls
                   then Some ((case accumulator s c of None \<Rightarrow> [] | Some l \<Rightarrow> l)
                                @ map snd (calls_with c calls))
                   else None))"
  using assms
proof (induction calls arbitrary: s)
  case Nil
  then show ?case
    using accumulator_None_iff [of s]
    by (auto simp: calls_with_def split: option.splits)
next
  case (Cons call calls)
  obtain c v where call: "call = (c, v)" by (cases call)
  from Stats_add_effect [OF Cons.prems, of c v] obtain s1 lg where
    s1: "Stats_add s c v = Inr (s1, lg)" "wf_stats s1"
      "keys s1 = (if c \<in> set (keys s) then keys s else keys s @ [c])"
      "start_time s1 = start_time s"
      "accumulator s1 =
         (accumulator s)(c \<mapsto> (case accumulator s c of None \<Rightarrow> [] | Some l \<Rightarrow> l) @ [v])"
    by blast
  from Cons.IH [OF s1(2)] obtain s' where
    s': "Stats_adds s1 calls = Inr s'" "wf_stats s'" "start_time s' = start_time s1"
      "set (keys s') = set (keys s1) \<union> fst ` set calls"
      "\<And>x. accumulator s' x =
                  (if x \<in> set (keys s1) \<union> fst ` set calls
                   then Some ((case accumulator s1 x of None \<Rightarrow> [] | Some l \<Rightarrow> l)
                                @ map snd (calls_with x calls))
                   else None)"
    by blast
  have run: "Stats_adds s (call # calls) = Inr s'"
    by (simp add: call s1(1) s'(1))
  have ks: "set (keys s') = set (keys s) \<union> fst ` set (call # calls)"
    by (auto simp: s'(4) s1(3) call)
  have acc: "accumulator s' x =
                  (if x \<in> set (keys s) \<union> fst ` set (call # calls)
                   then Some ((case accumulator s x of None \<Rightarrow> [] | Some l \<Rightarrow> l)
                                @ map snd (calls_with x (call # calls)))
                   else None)" for x
    using accumulator_None_iff [of s x]
    by (auto simp: s'(5) s1(3,5) call calls_with_def split: option.splits)
  show ?case using run s'(2) s'(3) s1(4) ks acc by simp
qed

subsection \<open>Log strings\<close>

lemma append_after_init_total:
  "\<exists>s'. append_to (init_category s c) c x = Inr s'"
proof -
  have "map_of (entries (init_category s c)) c \<noteq> None"
    by (auto simp: init_category_def map_of_dict_set)
  then show ?thesis
    by (auto simp: append_to_def dict_get_def split: option.splits)
qed

lemma encode_ascii_ignore_append:
  "encode_ascii_ignore (a @ b) = encode_ascii_ignore a @ encode_ascii_ignore b"
  by (simp add: encode_ascii_ignore_def)

lemma encode_ascii_ignore_id:
  "encode_ascii_ignore x = x \<longleftrightarrow> (\<forall>k \<in> set x. k < 128)"
  by (simp add: encode_ascii_ignore_def filter_id_conv)

text \<open>
  Claim C2. \<^verbatim>\<open>Stats.add(category, value)\<close> always returns, and what it returns is the
  text \<^verbatim>\<open>"<category>: <value>"\<close> without its non-ASCII characters: the category and
  the rendered value each lose exactly their code points from 128 on, the separator
  stays. The result holds ASCII only, a text that is ASCII already is returned
  unchanged, and a character is either kept as it is or left out (never escaped or
  replaced). \<^verbatim>\<open>add('deleted', 'caf' + chr(233))\<close>, the value being the word with an
  e acute as its last letter, returns \<^verbatim>\<open>"deleted: caf"\<close>.
  \<^verbatim>\<open>StatsWithSum.add\<close> does the same with
  \<^verbatim>\<open>"<category>: <identifier> <numeric_value>"\<close>.
\<close>

theorem add_log_string:
  "(\<exists>s'. Stats_add s c v =
           Inr (s', encode_ascii_ignore c @ lit '': '' @ encode_ascii_ignore (py_str v))) \<and>
   (\<exists>w'. StatsWithSum_add w c i n =
           Inr (w', encode_ascii_ignore c @ lit '': '' @ encode_ascii_ignore (py_str i)
                      @ lit '' '' @ encode_ascii_ignore (py_str n))) \<and>
   (\<forall>k \<in> set (encode_ascii_ignore x). k < 128) \<and>
   (encode_ascii_ignore x = x \<longleftrightarrow> (\<forall>k \<in> set x. k < 128)) \<and>
   encode_ascii_ignore (a @ k # b) =
     encode_ascii_ignore a @ (if k < 128 then [k] else []) @ encode_ascii_ignore b \<and>
   (\<exists>s'. Stats_add (new_stats t0) (lit ''deleted'') (PyStr (lit ''caf'' @ [233])) =
           Inr (s', lit ''deleted: caf''))"
proof -
  have sep: "encode_ascii_ignore (lit '': '') = lit '': ''"
    "encode_ascii_ignore (lit '' '') = lit '' ''"
    by (simp_all add: encode_ascii_ignore_def lit_def)
  have 1: "\<exists>s'. Stats_add s c v =
           Inr (s', encode_ascii_ignore c @ lit '': '' @ encode_ascii_ignore (py_str v))" for s c v
    using append_after_init_total [of s c v]
    by (auto simp: Stats_add_def encode_ascii_ignore_append sep)
  have 2: "\<exists>w'. StatsWithSum_add w c i n =
           Inr (w', encode_ascii_ignore c @ lit '': '' @ encode_ascii_ignore (py_str i)
                      @ lit '' '' @ encode_ascii_ignore (py_str n))"
    using append_after_init_total [of w c "(i, n)"]
    by (auto simp: StatsWithSum_add_def encode_ascii_ignore_append sep)
  have 3: "\<forall>k \<in> set (encode_ascii_ignore x). k < 128"
    by (simp add: encode_ascii_ignore_def)
  have 5: "encode_ascii_ignore (a @ k # b) =
     encode_ascii_ignore a @ (if k < 128 then [k] else []) @ encode_ascii_ignore b"
    by (simp add: encode_ascii_ignore_def)
  have 6: "\<exists>s'. Stats_add (new_stats t0) (lit ''deleted'') (PyStr (lit ''caf'' @ [233])) =
           Inr (s', lit ''deleted: caf'')"
    using 1 [of "new_stats t0" "lit ''deleted''" "PyStr (lit ''caf'' @ [233])"]
    by (simp add: encode_ascii_ignore_def lit_def)
  show ?thesis using 1 2 3 5 6 encode_ascii_ignore_id by blast
qed

theorem add_log_string_witness:
  "(\<exists>w'. StatsWithSum_add (new_stats 0) (lit ''caf'' @ [233]) (PyStr [241, 105, 100]) (PyInt 25) =
           Inr (w', lit ''caf: id 25'')) \<and>
   (\<exists>s'. Stats_add (new_stats 0) (lit ''caf'' @ [233]) PyNone = Inr (s', lit ''caf: None''))"
  using add_log_string [where s = "new_stats 0" and c = "lit ''caf'' @ [233]" and v = PyNone
                          and w = "new_stats 0" and i = "PyStr [241, 105, 100]" and n = "PyInt 25"]
  by (simp add: encode_ascii_ignore_def lit_def str_int_def digits_lits)

subsection \<open>Summaries\<close>

lemma limit_value_str_short:
  "length x \<le> 150 \<Longrightarrow> limit_value_str x = x"
  by (simp add: limit_value_str_def report_value_limit_def)

lemma limit_value_str_long:
  "150 < length x \<Longrightarrow> limit_value_str x = take 150 x @ lit ''...''"
  by (simp add: limit_value_str_def report_value_limit_def)

lemma length_limit_value_str:
  "length (limit_value_str x) = (if 150 < length x then 153 else length x)"
  by (simp add: limit_value_str_def report_value_limit_def)


lemma Stats_report_value_accumulator:
  "Stats_report_value repr_str s c =
     (case accumulator s c of
        None \<Rightarrow> Inl KeyError
      | Some vals \<Rightarrow> Inr (limit_value_str (Stats_value_str repr_str vals), length vals))"
  by (simp add: Stats_report_value_def accumulator_def dict_get_def Let_def split: option.splits)

lemma StatsWithSum_report_value_accumulator:
  "StatsWithSum_report_value repr_str s c =
     (case accumulator s c of
        None \<Rightarrow> Inl KeyError
      | Some vals \<Rightarrow>
          (case py_sum (map snd vals) of
             Inl e \<Rightarrow> Inl e
           | Inr tot \<Rightarrow>
               Inr (limit_value_str (StatsWithSum_value_str repr_str tot vals), length vals)))"
  by (simp add: StatsWithSum_report_value_def accumulator_def dict_get_def Let_def split: option.splits)

text \<open>
  Claim C6. In both variants the summary that \<^verbatim>\<open>report_value\<close> returns for a category
  is built from the category's accumulator and then cut: a built string of more than
  150 characters gives its first 150 characters followed by \<^verbatim>\<open>...\<close> (153 characters in
  all), a shorter one is returned unchanged. So no summary is longer than 153
  characters.
\<close>

theorem summary_truncation:
  "(Stats_report_value repr_str s c = Inr (str, n) \<longrightarrow>
      (\<exists>vals. accumulator s c = Some vals \<and>
         (let built = Stats_value_str repr_str vals in
            length str \<le> 150 + length ''...'' \<and>
            (150 < length built \<longrightarrow> str = take 150 built @ lit ''...'') \<and>
            (length built \<le> 150 \<longrightarrow> str = built)))) \<and>
   (StatsWithSum_report_value repr_str w c = Inr (str', n') \<longrightarrow>
      (\<exists>vals tot. accumulator w c = Some vals \<and> py_sum (map snd vals) = Inr tot \<and>
         (let built = StatsWithSum_value_str repr_str tot vals in
            length str' \<le> 150 + length ''...'' \<and>
            (150 < length built \<longrightarrow> str' = take 150 built @ lit ''...'') \<and>
            (length built \<le> 150 \<longrightarrow> str' = built))))"
  by (auto simp: Stats_report_value_accumulator StatsWithSum_report_value_accumulator Let_def
      limit_value_str_short limit_value_str_long length_limit_value_str
      split: option.splits sum.splits)

theorem summary_truncation_witness:
  "Stats_report_value id
     \<lparr>start_time = 0, entries = [(lit ''c'', 1)],
      heap = (\<lambda>a. if a = 1 then [PyInt 7] else []), next_free = 2\<rparr> (lit ''c'') =
     Inr (lit ''1 [7]'', 1) \<and>
   StatsWithSum_report_value id
     \<lparr>start_time = 0, entries = [(lit ''c'', 1)],
      heap = (\<lambda>a. if a = 1 then [(PyStr (replicate 200 97), PyInt 1)] else []),
      next_free = 2\<rparr> (lit ''c'') =
     Inr (lit ''1 total=1 [('' @ replicate 138 97 @ lit ''...'', 1) \<and>
   length (lit ''1 total=1 [('' @ replicate 138 97 @ lit ''...'') \<le> 150 + length ''...''"
  using summary_truncation [where repr_str = id and c = "lit ''c''"
      and s = "\<lparr>start_time = 0, entries = [(lit ''c'', 1)],
                heap = (\<lambda>a. if a = 1 then [PyInt 7] else []), next_free = 2\<rparr>"
      and str = "lit ''1 [7]''" and n = 1
      and w = "\<lparr>start_time = 0, entries = [(lit ''c'', 1)],
                heap = (\<lambda>a. if a = 1 then [(PyStr (replicate 200 97), PyInt 1)] else []),
                next_free = 2\<rparr>"
      and str' = "lit ''1 total=1 [('' @ replicate 138 97 @ lit ''...''" and n' = 1]
  by (simp add: Stats_report_value_def StatsWithSum_report_value_def dict_get_def
      limit_value_str_def report_value_limit_def Stats_value_str_def
      StatsWithSum_value_str_def repr_list_def repr_pair_def py_sum_def
      str_int_def digits_lits lit_def)

subsection \<open>The report\<close>

text \<open>
  Claim C7. A store on which \<^verbatim>\<open>add\<close> was never called reports without failing, in
  either sort mode and whatever \<^verbatim>\<open>report_value\<close> is: the lines are the single line
  of \<open>indent\<close> tabs followed by \<^verbatim>\<open>None\<close>, and after it the elapsed-time line exactly
  when \<^verbatim>\<open>show_time_taken\<close> is set. The returned text is these lines joined by
  newlines.
\<close>

theorem empty_store_report:
  "report_lines rv td_str now indent order_by_title show_time_taken (new_stats t0) =
     Inr ((replicate (nat indent) 9 @ lit ''None'') #
          (if show_time_taken
           then [replicate (nat indent) 9 @ lit ''Time taken (h:m:s): '' @ td_str (now - t0)]
           else [])) \<and>
   report rv td_str now indent order_by_title show_time_taken (new_stats t0) =
     Inr (replicate (nat indent) 9 @ lit ''None'' @
          (if show_time_taken
           then 10 # replicate (nat indent) 9 @ lit ''Time taken (h:m:s): '' @ td_str (now - t0)
           else []))"
  by (simp add: report_def report_lines_def report_items_def new_stats_def Let_def)


subsection \<open>Filling and sorting the report dictionary\<close>

lemma fill_report_dict_Inr:
  assumes "distinct cs" "set cs \<inter> fst ` set rd = {}" "\<forall>c \<in> set cs. \<exists>t. rv c = Inr t"
  shows "fill_report_dict rv cs rd = Inr (rd @ map (\<lambda>c. (c, projr (rv c))) cs)"
  using assms
proof (induction cs arbitrary: rd)
  case Nil
  then show ?case by simp
next
  case (Cons c cs)
  from Cons.prems(3) obtain t where t: "rv c = Inr t" by auto
  have fresh: "c \<notin> fst ` set rd" using Cons.prems(2) by auto
  have "fill_report_dict rv cs (rd @ [(c, t)]) =
          Inr ((rd @ [(c, t)]) @ map (\<lambda>c. (c, projr (rv c))) cs)"
    using Cons.prems by (intro Cons.IH) auto
  then show ?case by (simp add: t dict_set_fresh [OF fresh])
qed

lemma fill_report_dict_Inl:
  "fill_report_dict rv cs rd = Inl e \<Longrightarrow> \<exists>c \<in> set cs. rv c = Inl e"
  by (induction cs arbitrary: rd) (auto split: sum.splits)

lemma fill_report_dict_succeeds:
  "fill_report_dict rv cs rd = Inr rd' \<Longrightarrow> c \<in> set cs \<Longrightarrow> \<exists>t. rv c = Inr t"
  by (induction cs arbitrary: rd) (auto split: sum.splits)

lemma fill_report_dict_fails:
  "c \<in> set cs \<Longrightarrow> rv c = Inl e \<Longrightarrow> \<exists>e'. fill_report_dict rv cs rd = Inl e'"
  by (induction cs arbitrary: rd) (auto split: sum.splits)

lemma report_items_Inr:
  assumes "distinct (keys s)" "report_items rv order_by_title s = Inr items"
  shows "items = (if order_by_title then sort (map (\<lambda>c. (c, projr (rv s c))) (keys s))
                  else sort_key (\<lambda>x. - int (snd (snd x)))
                         (map (\<lambda>c. (c, projr (rv s c))) (keys s)))"
    and "\<And>c. c \<in> set (keys s) \<Longrightarrow> rv s c = Inr (projr (rv s c))"
proof -
  from assms(2) obtain rd where rd: "fill_report_dict (rv s) (keys s) [] = Inr rd"
    and items: "items = (if order_by_title then sort rd
                         else sort_key (\<lambda>x. - int (snd (snd x))) rd)"
    by (auto simp: report_items_def keys_def split: sum.splits)
  have ok: "\<exists>t. rv s c = Inr t" if "c \<in> set (keys s)" for c
    using fill_report_dict_succeeds [OF rd that] .
  then show "\<And>c. c \<in> set (keys s) \<Longrightarrow> rv s c = Inr (projr (rv s c))" by force
  have "fill_report_dict (rv s) (keys s) [] = Inr ([] @ map (\<lambda>c. (c, projr (rv s c))) (keys s))"
    using assms(1) ok by (intro fill_report_dict_Inr) auto
  with rd have "rd = map (\<lambda>c. (c, projr (rv s c))) (keys s)" by simp
  with items show "items = (if order_by_title then sort (map (\<lambda>c. (c, projr (rv s c))) (keys s))
                  else sort_key (\<lambda>x. - int (snd (snd x)))
                         (map (\<lambda>c. (c, projr (rv s c))) (keys s)))" by simp
qed


lemma report_lines_items:
  assumes "report_items rv order_by_title s = Inr items" "keys s \<noteq> []"
  shows "report_lines rv td_str now indent order_by_title show_time_taken s =
           Inr (map (item_line (replicate (nat indent) 9)) items @
                (if show_time_taken
                 then [replicate (nat indent) 9 @ lit ''Time taken (h:m:s): ''
                         @ td_str (now - start_time s)]
                 else []))"
  using assms by (simp add: report_lines_def keys_def Let_def)

text \<open>Sorting pairs lexicographically sorts their first components.\<close>

lemma sorted_map_fst:
  fixes xs :: "('a::linorder \<times> 'b::linorder) list"
  assumes "sorted xs"
  shows "sorted (map fst xs)"
proof -
  have "sorted_wrt (\<lambda>x y. fst x \<le> fst y) xs"
    using assms by (rule sorted_wrt_mono_rel [rotated]) (auto simp: less_eq_prod_def)
  then show ?thesis by (simp add: sorted_map)
qed


lemma map_fst_sort:
  fixes xs :: "('a::linorder \<times> 'b::linorder) list"
  assumes "distinct (map fst xs)"
  shows "map fst (sort xs) = sort (map fst xs)"
proof (rule sorted_distinct_set_unique)
  show "sorted (map fst (sort xs))" by (simp add: sorted_map_fst)
  show "distinct (map fst (sort xs))"
    using assms by (simp add: distinct_map)
  show "sorted (sort (map fst xs))" by simp
  show "distinct (sort (map fst xs))" using assms by simp
  show "set (map fst (sort xs)) = set (sort (map fst xs))" by simp
qed

lemma main_calls_store:
  "Stats_adds (new_stats 0) main_calls =
     Inr \<lparr>start_time = 0, entries = [(lit ''Success'', 1), (lit ''Failure'', 2)],
          heap = (\<lambda>a. [])
            (1 := [PyStr (lit ''good1''), PyStr (lit ''good2''), PyStr (lit ''good3''),
                   PyStr (lit ''good4'')],
             2 := [PyStr (lit ''bad1'')]),
          next_free = 3\<rparr>"
  by (simp add: main_calls_def Stats_add_def append_to_def init_category_def dict_get_def
      new_stats_def init_value_addr_def lit_def numeral_2_eq_2 numeral_3_eq_3)

lemma Stats_adds_new_wf:
  "Stats_adds (new_stats t0) calls = Inr s \<Longrightarrow> wf_stats s"
  using Stats_adds_effect [OF wf_new_stats, of t0 calls] by auto

lemma wf_stats_distinct_keys: "wf_stats s \<Longrightarrow> distinct (keys s)"
  by (simp add: wf_stats_def keys_def)

text \<open>
  Claim C5. With \<^verbatim>\<open>order_by_title\<close> set, the items that \<open>report\<close> renders are one per
  category, each with the summary and count of its category, and their categories are
  the keys of the store in ascending order: of two lines, the earlier one has the
  category that is smaller in the lexicographic order of the code points. The lines of
  the report are these items, rendered in this order.
\<close>

theorem report_order_by_title:
  assumes "wf_stats s" and "report_items rv True s = Inr items"
  shows "map fst items = sort (keys s) \<and>
         (\<forall>i j. i < j \<and> j < length items \<longrightarrow>
                (fst (items ! i), fst (items ! j)) \<in> lexord {(a, b). a < b}) \<and>
         (\<forall>x \<in> set items. rv s (fst x) = Inr (snd x)) \<and>
         (keys s \<noteq> [] \<longrightarrow>
            report_lines rv td_str now indent True show_time_taken s =
              Inr (map (item_line (replicate (nat indent) 9)) items @
                   (if show_time_taken
                    then [replicate (nat indent) 9 @ lit ''Time taken (h:m:s): ''
                            @ td_str (now - start_time s)]
                    else [])))"
proof -
  let ?rd = "map (\<lambda>c. (c, projr (rv s c))) (keys s)"
  have d: "distinct (keys s)" using assms(1) by (rule wf_stats_distinct_keys)
  note ri = report_items_Inr [OF d assms(2)]
  have items: "items = sort ?rd" using ri(1) by simp
  have fst_rd: "map fst ?rd = keys s" by (simp add: comp_def)
  have "map fst (sort ?rd) = sort (map fst ?rd)"
    by (rule map_fst_sort) (simp only: fst_rd d)
  then have 1: "map fst items = sort (keys s)"
    by (simp only: items fst_rd)
  have "sorted_wrt (<) (map fst items)"
    unfolding 1 using d by (simp add: strict_sorted_iff)
  then have 2: "\<forall>i j. i < j \<and> j < length items \<longrightarrow>
                (fst (items ! i), fst (items ! j)) \<in> lexord {(a, b). a < b}"
    by (auto simp: sorted_wrt_iff_nth_less list_less_def)
  have 3: "\<forall>x \<in> set items. rv s (fst x) = Inr (snd x)"
    unfolding items using ri(2) by auto
  show ?thesis using 1 2 3 report_lines_items [OF assms(2)] by blast
qed

theorem report_order_by_title_witness:
  "report_items (Stats_report_value id) True (projr (Stats_adds (new_stats 0) main_calls)) =
     Inr [(lit ''Failure'', lit ''1 [bad1]'', 1),
          (lit ''Success'', lit ''4 [good1, good2, good3, good4]'', 4)] \<and>
   report_lines (Stats_report_value id) str_int 0 1 True False
       (projr (Stats_adds (new_stats 0) main_calls)) =
     Inr [9 # lit ''Failure: 1 [bad1]'', 9 # lit ''Success: 4 [good1, good2, good3, good4]''] \<and>
   (lit ''Failure'', lit ''Success'') \<in> lexord {(a, b). a < b}"
proof -
  let ?s = "projr (Stats_adds (new_stats 0) main_calls)"
  let ?items = "[(lit ''Failure'', lit ''1 [bad1]'', 1::nat),
          (lit ''Success'', lit ''4 [good1, good2, good3, good4]'', 4)]"
  have w: "wf_stats ?s"
    by (rule Stats_adds_new_wf [of 0 main_calls]) (simp add: main_calls_store)
  have r: "report_items (Stats_report_value id) True ?s = Inr ?items"
    by (simp add: main_calls_store report_items_def Stats_report_value_def dict_get_def
        limit_value_str_def report_value_limit_def Stats_value_str_def repr_list_def
        str_int_def digits_small lit_def Let_def)
  have k: "keys ?s \<noteq> []" by (simp add: main_calls_store keys_def)
  show ?thesis
    using report_order_by_title [OF w r, where td_str = str_int and indent = 1
        and now = 0 and show_time_taken = False] r k
    by (simp add: item_line_def lit_def)
qed

lemma calls_with_empty_iff: "calls_with c calls = [] \<longleftrightarrow> c \<notin> fst ` set calls"
  by (auto simp: calls_with_def filter_empty_conv)

lemma Stats_adds_new_accumulator:
  assumes "Stats_adds (new_stats t0) calls = Inr s"
  shows "accumulator s c =
           (if calls_with c calls = [] then None else Some (map snd (calls_with c calls)))"
    and "set (keys s) = fst ` set calls"
  using Stats_adds_effect [OF wf_new_stats, of t0 calls] assms
  by (auto simp: keys_new_stats accumulator_new_stats calls_with_empty_iff)







subsection \<open>Sums\<close>

lemma py_sum_from_numbers:
  "\<forall>x \<in> set xs. is_number x \<Longrightarrow>
     py_sum_from (PyInt a) xs = Inr (PyInt (a + sum_list (map number_of xs)))"
proof (induction xs arbitrary: a)
  case Nil
  then show ?case by simp
next
  case (Cons x xs)
  then obtain i where "x = PyInt i" by (cases x) auto
  with Cons show ?case by (simp add: add.assoc)
qed

lemma py_sum_from_type_error:
  "\<exists>x \<in> set xs. \<not> is_number x \<Longrightarrow> py_sum_from (PyInt a) xs = Inl TypeError"
proof (induction xs arbitrary: a)
  case Nil
  then show ?case by simp
next
  case (Cons x xs)
  show ?case
  proof (cases x)
    case (PyInt i)
    with Cons show ?thesis by simp
  qed simp_all
qed

lemma py_sum_cases:
  "py_sum xs = (if \<forall>x \<in> set xs. is_number x
                then Inr (PyInt (sum_list (map number_of xs))) else Inl TypeError)"
  using py_sum_from_numbers [of xs 0] py_sum_from_type_error [of xs 0]
  by (auto simp: py_sum_def)



subsection \<open>Sequences of calls on a StatsWithSum store\<close>

lemma StatsWithSum_adds_effect:
  assumes "wf_stats s"
  shows "\<exists>s'. StatsWithSum_adds s calls = Inr s' \<and> wf_stats s' \<and>
           start_time s' = start_time s \<and>
           set (keys s') = set (keys s) \<union> fst ` set calls \<and>
           (\<forall>c. accumulator s' c =
                  (if c \<in> set (keys s) \<union> fst ` set calls
                   then Some ((case accumulator s c of None \<Rightarrow> [] | Some l \<Rightarrow> l)
                                @ map snd (calls_with c calls))
                   else None))"
  using assms
proof (induction calls arbitrary: s)
  case Nil
  then show ?case
    using accumulator_None_iff [of s]
    by (auto simp: calls_with_def split: option.splits)
next
  case (Cons call calls)
  obtain c i v where call: "call = (c, i, v)" by (cases call)
  from StatsWithSum_add_effect [OF Cons.prems, of c i v] obtain s1 lg where
    s1: "StatsWithSum_add s c i v = Inr (s1, lg)" "wf_stats s1"
      "keys s1 = (if c \<in> set (keys s) then keys s else keys s @ [c])"
      "start_time s1 = start_time s"
      "accumulator s1 =
         (accumulator s)(c \<mapsto> (case accumulator s c of None \<Rightarrow> [] | Some l \<Rightarrow> l) @ [(i, v)])"
    by blast
  from Cons.IH [OF s1(2)] obtain s' where
    s': "StatsWithSum_adds s1 calls = Inr s'" "wf_stats s'" "start_time s' = start_time s1"
      "set (keys s') = set (keys s1) \<union> fst ` set calls"
      "\<And>x. accumulator s' x =
                  (if x \<in> set (keys s1) \<union> fst ` set calls
                   then Some ((case accumulator s1 x of None \<Rightarrow> [] | Some l \<Rightarrow> l)
                                @ map snd (calls_with x calls))
                   else None)"
    by blast
  have run: "StatsWithSum_adds s (call # calls) = Inr s'"
    by (simp add: call s1(1) s'(1))
  have ks: "set (keys s') = set (keys s) \<union> fst ` set (call # calls)"
    by (auto simp: s'(4) s1(3) call)
  have acc: "accumulator s' x =
                  (if x \<in> set (keys s) \<union> fst ` set (call # calls)
                   then Some ((case accumulator s x of None \<Rightarrow> [] | Some l \<Rightarrow> l)
                                @ map snd (calls_with x (call # calls)))
                   else None)" for x
    using accumulator_None_iff [of s x]
    by (auto simp: s'(5) s1(3,5) call calls_with_def split: option.splits)
  show ?case using run s'(2) s'(3) s1(4) ks acc by simp
qed

lemma StatsWithSum_adds_new:
  assumes "StatsWithSum_adds (new_stats t0) calls = Inr s"
  shows "accumulator s c =
           (if calls_with c calls = [] then None else Some (map snd (calls_with c calls)))"
    and "set (keys s) = fst ` set calls"
    and "wf_stats s"
  using StatsWithSum_adds_effect [OF wf_new_stats, of t0 calls] assms
  by (auto simp: keys_new_stats accumulator_new_stats calls_with_empty_iff)




subsection \<open>Non-numeric components\<close>

lemma StatsWithSum_report_value_error:
  assumes "c \<in> set (keys w)" "StatsWithSum_report_value repr_str w c = Inl e"
  shows "e = TypeError"
proof -
  from assms(1) obtain vals where "accumulator w c = Some vals"
    using accumulator_None_iff [of w c] by (cases "accumulator w c") auto
  with assms(2) show ?thesis
    by (auto simp: StatsWithSum_report_value_accumulator py_sum_cases split: if_splits)
qed

lemma report_lines_error:
  "report_items rv order_by_title s = Inl e \<Longrightarrow>
     report_lines rv td_str now indent order_by_title show_time_taken s = Inl e"
  by (simp add: report_lines_def)

lemma report_items_error:
  assumes "c \<in> set (keys s)" "rv s c = Inl e"
  shows "\<exists>e' c'. report_items rv order_by_title s = Inl e' \<and> c' \<in> set (keys s) \<and>
           rv s c' = Inl e'"
proof -
  from fill_report_dict_fails [OF assms(1), of "rv s" e "[]"] assms(2)
  obtain e' where e': "fill_report_dict (rv s) (keys s) [] = Inl e'" by auto
  from fill_report_dict_Inl [OF e'] obtain c' where "c' \<in> set (keys s)" "rv s c' = Inl e'"
    by auto
  with e' show ?thesis by (auto simp: report_items_def keys_def)
qed

text \<open>
  Claim C9. On a \<^verbatim>\<open>StatsWithSum\<close> store, \<^verbatim>\<open>add\<close> with a numeric component that is not a
  number returns normally: the log string is returned and the pair is appended to the
  category's accumulator. Afterwards \<^verbatim>\<open>report_value\<close> for that category fails with the
  \<open>TypeError\<close> of the addition, and \<open>report\<close>, in either sort mode, fails with the same
  error: nothing catches or translates it.
\<close>

theorem non_number_fails_at_report:
  assumes "wf_stats w" and "\<not> is_number n"
  shows "\<exists>w'. StatsWithSum_add w c ident n =
                Inr (w', encode_ascii_ignore
                           (c @ lit '': '' @ py_str ident @ lit '' '' @ py_str n)) \<and>
           accumulator w' c =
             Some ((case accumulator w c of None \<Rightarrow> [] | Some l \<Rightarrow> l) @ [(ident, n)]) \<and>
           StatsWithSum_report_value repr_str w' c = Inl TypeError \<and>
           report_lines (StatsWithSum_report_value repr_str) td_str now indent order_by_title
               show_time_taken w' = Inl TypeError \<and>
           report (StatsWithSum_report_value repr_str) td_str now indent order_by_title
               show_time_taken w' = Inl TypeError"
proof -
  let ?rv = "StatsWithSum_report_value repr_str"
  from StatsWithSum_add_effect [OF assms(1), of c ident n] obtain w' where
    w': "StatsWithSum_add w c ident n =
           Inr (w', encode_ascii_ignore (c @ lit '': '' @ py_str ident @ lit '' '' @ py_str n))"
      "wf_stats w'"
      "accumulator w' =
         (accumulator w)(c \<mapsto> (case accumulator w c of None \<Rightarrow> [] | Some l \<Rightarrow> l) @ [(ident, n)])"
    by blast
  have acc: "accumulator w' c =
               Some ((case accumulator w c of None \<Rightarrow> [] | Some l \<Rightarrow> l) @ [(ident, n)])"
    by (simp add: w'(3))
  have rv: "?rv w' c = Inl TypeError"
    using assms(2) by (simp add: StatsWithSum_report_value_accumulator acc py_sum_cases)
  have k: "c \<in> set (keys w')"
    using acc accumulator_None_iff [of w' c] by auto
  from report_items_error [where rv = ?rv and order_by_title = order_by_title, OF k rv]
  obtain e' c' where
    e': "report_items ?rv order_by_title w' = Inl e'" "c' \<in> set (keys w')" "?rv w' c' = Inl e'"
    by blast
  have "e' = TypeError"
    using StatsWithSum_report_value_error [OF e'(2,3)] .
  with e'(1) have ri: "report_items ?rv order_by_title w' = Inl TypeError" by simp
  have rl: "report_lines ?rv td_str now indent order_by_title show_time_taken w' = Inl TypeError"
    using ri by (rule report_lines_error)
  have r: "report ?rv td_str now indent order_by_title show_time_taken w' = Inl TypeError"
    by (simp add: report_def rl)
  show ?thesis using w'(1) acc rv rl r by blast
qed

theorem non_number_fails_at_report_witness:
  "(\<exists>w'. StatsWithSum_add (new_stats 0) (lit ''cat'') (PyStr (lit ''id1'')) (PyStr (lit ''2.5'')) =
           Inr (w', lit ''cat: id1 2.5'') \<and>
         accumulator w' (lit ''cat'') = Some [(PyStr (lit ''id1''), PyStr (lit ''2.5''))] \<and>
         report (StatsWithSum_report_value id) str_int 0 1 False True w' = Inl TypeError)"
  using non_number_fails_at_report [OF wf_new_stats, of "PyStr (lit ''2.5'')" 0 "lit ''cat''"
      "PyStr (lit ''id1'')" id str_int 0 1 False True]
  by (simp add: accumulator_new_stats encode_ascii_ignore_def lit_def) blast

subsection \<open>Categories and their accumulators\<close>

lemma wf_stats_refs:
  assumes "wf_stats s"
  shows "distinct (map snd (entries s))" and "init_value_addr \<notin> snd ` set (entries s)"
    and "heap s init_value_addr = []"
  using assms by (auto simp: wf_stats_def)

text \<open>
  Claim C8. After any sequence of \<^verbatim>\<open>add\<close> calls on a new store, of either variant, a
  category is a key of the store exactly if at least one call was made with it, and its
  accumulator holds the values of these calls, in order. No two categories refer to the
  same list object, none refers to the class attribute \<^verbatim>\<open>_init_value\<close>, and the class
  attribute is still the empty list. On such a store one more \<^verbatim>\<open>add\<close> starts a new
  category from the empty list or extends the category's own accumulator, and leaves
  the accumulator of every other category as it was.
\<close>

theorem categories_and_accumulators:
  "(\<exists>s. Stats_adds (new_stats t0) calls = Inr s \<and>
        (\<forall>c. (c \<in> set (keys s) \<longleftrightarrow> calls_with c calls \<noteq> []) \<and>
             accumulator s c =
               (if calls_with c calls = [] then None
                else Some (map snd (calls_with c calls)))) \<and>
        distinct (map snd (entries s)) \<and> init_value_addr \<notin> snd ` set (entries s) \<and>
        heap s init_value_addr = [] \<and> wf_stats s) \<and>
   (\<exists>w. StatsWithSum_adds (new_stats t0) calls' = Inr w \<and>
        (\<forall>c. (c \<in> set (keys w) \<longleftrightarrow> calls_with c calls' \<noteq> []) \<and>
             accumulator w c =
               (if calls_with c calls' = [] then None
                else Some (map snd (calls_with c calls')))) \<and>
        distinct (map snd (entries w)) \<and> init_value_addr \<notin> snd ` set (entries w) \<and>
        heap w init_value_addr = [] \<and> wf_stats w) \<and>
   (wf_stats u \<longrightarrow>
      (\<exists>u' lg. Stats_add u c v = Inr (u', lg) \<and> wf_stats u' \<and>
         accumulator u' c = Some ((case accumulator u c of None \<Rightarrow> [] | Some l \<Rightarrow> l) @ [v]) \<and>
         (\<forall>c'. c' \<noteq> c \<longrightarrow> accumulator u' c' = accumulator u c'))) \<and>
   (wf_stats x \<longrightarrow>
      (\<exists>x' lg. StatsWithSum_add x c i n = Inr (x', lg) \<and> wf_stats x' \<and>
         accumulator x' c =
           Some ((case accumulator x c of None \<Rightarrow> [] | Some l \<Rightarrow> l) @ [(i, n)]) \<and>
         (\<forall>c'. c' \<noteq> c \<longrightarrow> accumulator x' c' = accumulator x c')))"
proof -
  obtain s where s: "Stats_adds (new_stats t0) calls = Inr s"
    using Stats_adds_effect [OF wf_new_stats, of t0 calls] by blast
  note sa = Stats_adds_new_accumulator [OF s] wf_stats_refs [OF Stats_adds_new_wf [OF s]]
  have 1: "\<exists>s. Stats_adds (new_stats t0) calls = Inr s \<and>
        (\<forall>c. (c \<in> set (keys s) \<longleftrightarrow> calls_with c calls \<noteq> []) \<and>
             accumulator s c =
               (if calls_with c calls = [] then None
                else Some (map snd (calls_with c calls)))) \<and>
        distinct (map snd (entries s)) \<and> init_value_addr \<notin> snd ` set (entries s) \<and>
        heap s init_value_addr = [] \<and> wf_stats s"
    using s sa Stats_adds_new_wf [OF s] by (auto simp: calls_with_empty_iff)
  obtain w where w: "StatsWithSum_adds (new_stats t0) calls' = Inr w"
    using StatsWithSum_adds_effect [OF wf_new_stats, of t0 calls'] by blast
  note wa = StatsWithSum_adds_new [OF w] wf_stats_refs [OF StatsWithSum_adds_new(3) [OF w]]
  have 2: "\<exists>w. StatsWithSum_adds (new_stats t0) calls' = Inr w \<and>
        (\<forall>c. (c \<in> set (keys w) \<longleftrightarrow> calls_with c calls' \<noteq> []) \<and>
             accumulator w c =
               (if calls_with c calls' = [] then None
                else Some (map snd (calls_with c calls')))) \<and>
        distinct (map snd (entries w)) \<and> init_value_addr \<notin> snd ` set (entries w) \<and>
        heap w init_value_addr = [] \<and> wf_stats w"
    using w wa by (auto simp: calls_with_empty_iff)
  have 3: "\<exists>u' lg. Stats_add u c v = Inr (u', lg) \<and> wf_stats u' \<and>
         accumulator u' c = Some ((case accumulator u c of None \<Rightarrow> [] | Some l \<Rightarrow> l) @ [v]) \<and>
         (\<forall>c'. c' \<noteq> c \<longrightarrow> accumulator u' c' = accumulator u c')"
    if "wf_stats u"
    using Stats_add_effect [OF that, of c v] by auto
  have 4: "\<exists>x' lg. StatsWithSum_add x c i n = Inr (x', lg) \<and> wf_stats x' \<and>
         accumulator x' c =
           Some ((case accumulator x c of None \<Rightarrow> [] | Some l \<Rightarrow> l) @ [(i, n)]) \<and>
         (\<forall>c'. c' \<noteq> c \<longrightarrow> accumulator x' c' = accumulator x c')"
    if "wf_stats x"
    using StatsWithSum_add_effect [OF that, of c i n] by auto
  show ?thesis using 1 2 3 4 by blast
qed

theorem categories_and_accumulators_witness:
  "wf_stats (projr (Stats_adds (new_stats 0) main_calls)) \<and>
   wf_stats (new_stats 0 :: (pyval \<times> pyval) stats) \<and>
   keys (projr (Stats_adds (new_stats 0) main_calls)) = [lit ''Success'', lit ''Failure''] \<and>
   (\<exists>u' lg. Stats_add (projr (Stats_adds (new_stats 0) main_calls)) (lit ''Failure'')
                (PyStr (lit ''bad2'')) = Inr (u', lg) \<and>
      accumulator u' (lit ''Failure'') = Some [PyStr (lit ''bad1''), PyStr (lit ''bad2'')] \<and>
      accumulator u' (lit ''Success'') =
        Some [PyStr (lit ''good1''), PyStr (lit ''good2''), PyStr (lit ''good3''),
              PyStr (lit ''good4'')]) \<and>
   (\<exists>x' lg. StatsWithSum_add (new_stats 0) (lit ''Failure'') PyNone (PyInt 7) = Inr (x', lg) \<and>
      accumulator x' (lit ''Failure'') = Some [(PyNone, PyInt 7)] \<and>
      accumulator x' (lit ''Success'') = None)"
proof -
  let ?u = "projr (Stats_adds (new_stats 0) main_calls)"
  let ?x = "new_stats 0 :: (pyval \<times> pyval) stats"
  have wu: "wf_stats ?u"
    by (rule Stats_adds_new_wf [of 0 main_calls]) (simp add: main_calls_store)
  have wx: "wf_stats ?x" by (rule wf_new_stats)
  have k: "keys ?u = [lit ''Success'', lit ''Failure'']"
    by (simp add: main_calls_store keys_def)
  have ne: "lit ''Success'' \<noteq> lit ''Failure''" by (simp add: lit_def)
  have af: "accumulator ?u (lit ''Failure'') = Some [PyStr (lit ''bad1'')]"
    using ne by (simp add: main_calls_store accumulator_def)
  have as: "accumulator ?u (lit ''Success'') =
        Some [PyStr (lit ''good1''), PyStr (lit ''good2''), PyStr (lit ''good3''),
              PyStr (lit ''good4'')]"
    by (simp add: main_calls_store accumulator_def)
  have ax: "accumulator ?x c = None" for c
    by (rule accumulator_new_stats)
  note t = categories_and_accumulators [where u = ?u and x = ?x and c = "lit ''Failure''"
      and v = "PyStr (lit ''bad2'')" and i = PyNone and n = "PyInt 7" and ?t0.0 = 0
      and calls = main_calls and calls' = "[]"]
  from t wu obtain u' lg where u': "Stats_add ?u (lit ''Failure'') (PyStr (lit ''bad2'')) = Inr (u', lg)"
      "accumulator u' (lit ''Failure'') =
         Some ((case accumulator ?u (lit ''Failure'') of None \<Rightarrow> [] | Some l \<Rightarrow> l)
               @ [PyStr (lit ''bad2'')])"
      "\<forall>c'. c' \<noteq> lit ''Failure'' \<longrightarrow> accumulator u' c' = accumulator ?u c'"
    by blast
  from t wx obtain x' lg' where x': "StatsWithSum_add ?x (lit ''Failure'') PyNone (PyInt 7) = Inr (x', lg')"
      "accumulator x' (lit ''Failure'') =
         Some ((case accumulator ?x (lit ''Failure'') of None \<Rightarrow> [] | Some l \<Rightarrow> l)
               @ [(PyNone, PyInt 7)])"
      "\<forall>c'. c' \<noteq> lit ''Failure'' \<longrightarrow> accumulator x' c' = accumulator ?x c'"
    by blast
  have 1: "accumulator u' (lit ''Failure'') = Some [PyStr (lit ''bad1''), PyStr (lit ''bad2'')]"
    by (simp only: u'(2) af option.case append.simps)
  have 2: "accumulator u' (lit ''Success'') =
        Some [PyStr (lit ''good1''), PyStr (lit ''good2''), PyStr (lit ''good3''),
              PyStr (lit ''good4'')]"
    using u'(3) ne as by metis
  have 3: "accumulator x' (lit ''Failure'') = Some [(PyNone, PyInt 7)]"
    by (simp only: x'(2) ax option.case append.simps)
  have 4: "accumulator x' (lit ''Success'') = None"
    using x'(3) ne ax by metis
  show ?thesis using wu wx k u'(1) 1 2 x'(1) 3 4 by blast
qed

end
